theory Spec2Isabelle
  imports Complex_Main "HOL-Library.Sublist" "HOL-Library.Multiset"
begin

section \<open>Documents and errors\<close>

text \<open>
  A LangChain \<^verbatim>\<open>Document\<close> as the repository builds it: the chunk text and a metadata
  dictionary with the four keys \<^verbatim>\<open>source\<close>, \<^verbatim>\<open>page\<close>, \<^verbatim>\<open>chunk_id\<close> and \<^verbatim>\<open>section\<close>.
  The page is an integer or the string \<^verbatim>\<open>"N/A"\<close>. Python strings are modelled as
  \<^typ>\<open>string\<close>, each \<^typ>\<open>char\<close> standing for one code point below 256.
\<close>

datatype page_ref = PageNum nat | NA

record metadata =
  source :: string
  page :: page_ref
  chunk_id :: string
  section_title :: string

record document =
  page_content :: string
  metadata :: metadata

text \<open>
  The exceptions the modelled code raises or catches: \<^verbatim>\<open>FileNotFoundError\<close>, the
  \<^verbatim>\<open>RuntimeError\<close> of the re-ranker (the spec's \<^verbatim>\<open>ModelUnavailable\<close>), the
  \<^verbatim>\<open>ValueError\<close> of an unknown model key, and any other \<^verbatim>\<open>Exception\<close>.
\<close>

datatype error = FileNotFoundError | RuntimeError | ValueError | OtherException

section \<open>Characters and strings\<close>

text \<open>
  The character classes of the pattern and of \<^verbatim>\<open>str.strip\<close>, on code points below 256:
  \<^verbatim>\<open>[A-Z]\<close>, \<^verbatim>\<open>[0-9]\<close>, and Python's Unicode whitespace (\<^verbatim>\<open>\s\<close> and \<^verbatim>\<open>str.isspace\<close>):
  the code points 9 to 13, 28 to 32, 133 and 160.
\<close>

definition newline :: char where
  "newline = CHR 0x0A"

definition is_upper :: "char \<Rightarrow> bool" where
  "is_upper c = (65 \<le> (of_char c :: nat) \<and> (of_char c :: nat) \<le> 90)"

definition is_digit :: "char \<Rightarrow> bool" where
  "is_digit c = (48 \<le> (of_char c :: nat) \<and> (of_char c :: nat) \<le> 57)"

definition is_space :: "char \<Rightarrow> bool" where
  "is_space c = ((of_char c :: nat) \<in> {9, 10, 11, 12, 13, 28, 29, 30, 31, 32, 133, 160})"

text \<open>\<^verbatim>\<open>s.strip()\<close>: leading and trailing whitespace removed.\<close>

definition strip :: "string \<Rightarrow> string" where
  "strip s = rev (dropWhile is_space (rev (dropWhile is_space s)))"

text \<open>\<^verbatim>\<open>os.path.basename\<close> on POSIX paths: what follows the last slash.\<close>

definition basename :: "string \<Rightarrow> string" where
  "basename p = rev (takeWhile (\<lambda>c. c \<noteq> CHR ''/'') (rev p))"

text \<open>The decimal digits of a counter, as the f-string \<^verbatim>\<open>f"chunk_{chunk_id_counter}"\<close> prints them.\<close>

definition digit_char :: "nat \<Rightarrow> char" where
  "digit_char d = char_of (48 + d)"

function str_nat :: "nat \<Rightarrow> string" where
  "str_nat n = (if n < 10 then [digit_char n] else str_nat (n div 10) @ [digit_char (n mod 10)])"
  by pat_completeness auto
termination
  by (relation "measure id") auto

declare str_nat.simps [simp del]

definition chunk_id_str :: "nat \<Rightarrow> string" where
  "chunk_id_str chunk_id_counter = ''chunk_'' @ str_nat chunk_id_counter"

section \<open>The section pattern (utils/document_processor.py)\<close>

text \<open>
  \<^verbatim>\<open>section_pattern = r"(?m)^([A-Z][A-Z0-9\s\-:]{5,})\n"\<close>.
  The class \<^verbatim>\<open>[A-Z0-9\s\-:]\<close> holds the upper-case letters, the digits, all whitespace
  (the newline included), the hyphen and the colon.
\<close>

definition in_header_class :: "char \<Rightarrow> bool" where
  "in_header_class c =
     (is_upper c \<or> is_digit c \<or> is_space c \<or> c = CHR ''-'' \<or> c = CHR '':'')"

text \<open>
  The greedy repetition \<^verbatim>\<open>[A-Z0-9\s\-:]{5,}\<close> followed by \<^verbatim>\<open>\n\<close>, as the backtracking
  matcher runs it: with \<open>n\<close> characters of the class already taken, first try to take one
  more; if the rest of the match fails that way, stop here, which needs at least five
  characters taken and a newline as the next character. The result is the number of class
  characters in the match.
\<close>

fun header_rest :: "nat \<Rightarrow> string \<Rightarrow> nat option" where
  "header_rest n [] = None"
| "header_rest n (c # cs) =
     (case (if in_header_class c then header_rest (Suc n) cs else None) of
        Some k \<Rightarrow> Some k
      | None \<Rightarrow> if 5 \<le> n \<and> c = newline then Some n else None)"

text \<open>
  The pattern after \<^verbatim>\<open>^\<close>, matched at the start of \<open>s\<close>: the captured group (the title)
  and the text after the closing newline.
\<close>

definition match_header :: "string \<Rightarrow> (string \<times> string) option" where
  "match_header s =
     (case s of
        [] \<Rightarrow> None
      | c # cs \<Rightarrow>
          if is_upper c then
            (case header_rest 0 cs of
               None \<Rightarrow> None
             | Some k \<Rightarrow> Some (c # take k cs, drop (Suc k) cs))
          else None)"

text \<open>
  The search for the leftmost match: positions are tried from left to right, and
  \<^verbatim>\<open>^\<close> in multi-line mode holds at the start of the text and after each newline
  (\<open>bol\<close> says whether the current position starts a line). The result is the text before
  the match, the title and the text after the match.
\<close>

fun search_header :: "bool \<Rightarrow> string \<Rightarrow> (string \<times> string \<times> string) option" where
  "search_header bol [] = None"
| "search_header bol (c # cs) =
     (case (if bol then match_header (c # cs) else None) of
        Some (title, rest) \<Rightarrow> Some ([], title, rest)
      | None \<Rightarrow>
          (case search_header (c = newline) cs of
             None \<Rightarrow> None
           | Some (before, title, rest) \<Rightarrow> Some (c # before, title, rest)))"

lemma match_header_shorter: "match_header s = Some (title, rest) \<Longrightarrow> length rest < length s"
  by (auto simp: match_header_def split: list.splits if_splits option.splits)

lemma search_header_shorter:
  "search_header bol s = Some (before, title, rest) \<Longrightarrow> length rest < length s"
proof (induction s arbitrary: bol before)
  case Nil
  then show ?case by simp
next
  case (Cons c cs)
  show ?case
  proof (cases "if bol then match_header (c # cs) else None")
    case None
    with Cons.prems obtain b where "search_header (c = newline) cs = Some (b, title, rest)"
      by (auto split: option.splits)
    from Cons.IH [OF this] show ?thesis by simp
  next
    case (Some m)
    with Cons.prems have "match_header (c # cs) = Some (title, rest)"
      by (auto split: if_splits prod.splits)
    then show ?thesis by (rule match_header_shorter)
  qed
qed

text \<open>
  \<^verbatim>\<open>re.split(section_pattern, full_text)\<close>: the pieces between the matches, with the
  captured title after each piece. A match ends with a newline, so the search resumes at
  the start of a line.
\<close>

function re_split :: "string \<Rightarrow> string list" where
  "re_split s =
     (case search_header True s of
        None \<Rightarrow> [s]
      | Some (before, title, rest) \<Rightarrow> before # title # re_split rest)"
  by pat_completeness auto
termination
  by (relation "measure length") (auto dest: search_header_shorter)

declare re_split.simps [simp del]

text \<open>The slice \<^verbatim>\<open>xs[0::2]\<close>; \<^verbatim>\<open>sections[1::2]\<close> is \<open>stride2 (drop 1 sections)\<close>.\<close>

fun stride2 :: "'a list \<Rightarrow> 'a list" where
  "stride2 [] = []"
| "stride2 [x] = [x]"
| "stride2 (x # y # zs) = x # stride2 zs"

definition content_list :: "string \<Rightarrow> (string \<times> string) list" where
  "content_list full_text =
     (let sections = re_split full_text
      in if length sections > 1
         then (''Introduction'', sections ! 0) #
              zip (stride2 (drop 1 sections)) (stride2 (drop 2 sections))
         else [(''General'', full_text)])"

section \<open>process_pdf (utils/document_processor.py)\<close>

text \<open>
  The file system and PyPDF2 are the environment: opening the path raises, or the reader
  raises, or the reader gives the pages, each of which raises or returns its text on
  \<^verbatim>\<open>extract_text()\<close>.
\<close>

record page_info =
  page_text :: string
  page_number :: nat

datatype pdf_file =
  OpenRaises error
| ReaderRaises error
| Pages "(error + string) list"

text \<open>Step 1: the loop over \<^verbatim>\<open>enumerate(pdf_reader.pages)\<close>; pages without text are skipped.\<close>

fun extract_pages ::
  "nat \<Rightarrow> (error + string) list \<Rightarrow> page_info list \<Rightarrow> string \<Rightarrow>
     error + (page_info list \<times> string)" where
  "extract_pages page_num [] pages_content full_text = Inr (pages_content, full_text)"
| "extract_pages page_num (p # ps) pages_content full_text =
     (case p of
        Inl e \<Rightarrow> Inl e
      | Inr t \<Rightarrow>
          if t \<noteq> [] then
            extract_pages (Suc page_num) ps
              (pages_content @ [\<lparr>page_text = t, page_number = page_num + 1\<rparr>])
              (full_text @ t @ [newline])
          else extract_pages (Suc page_num) ps pages_content full_text)"

text \<open>\<^verbatim>\<open>chunk_text[:max(50, len(chunk_text))]\<close>.\<close>

definition leading_text :: "string \<Rightarrow> string" where
  "leading_text chunk_text = take (max 50 (length chunk_text)) chunk_text"

text \<open>
  The inner loop over \<^verbatim>\<open>pages_content\<close>: \<^verbatim>\<open>page_num\<close> starts as \<^verbatim>\<open>"N/A"\<close>, and the loop
  breaks at the first page whose text contains the leading text (Python's \<^verbatim>\<open>in\<close> on
  strings is \<^const>\<open>sublist\<close>).
\<close>

fun find_page :: "page_info list \<Rightarrow> string \<Rightarrow> page_ref" where
  "find_page [] chunk_text = NA"
| "find_page (page_info # rest) chunk_text =
     (if sublist (leading_text chunk_text) (page_text page_info)
      then PageNum (page_number page_info)
      else find_page rest chunk_text)"

text \<open>The loop over the chunks of one section; the counter and the list are the state.\<close>

fun process_chunks ::
  "string \<Rightarrow> page_info list \<Rightarrow> string \<Rightarrow> string list \<Rightarrow> nat \<Rightarrow> document list \<Rightarrow>
     nat \<times> document list" where
  "process_chunks file_name pages_content title [] chunk_id_counter doc_chunks =
     (chunk_id_counter, doc_chunks)"
| "process_chunks file_name pages_content title (chunk_text # chunks) chunk_id_counter doc_chunks =
     (let page_num = find_page pages_content chunk_text;
          md = \<lparr>source = file_name, page = page_num,
                chunk_id = chunk_id_str chunk_id_counter,
                section_title = title\<rparr>;
          doc_chunk = \<lparr>page_content = chunk_text, metadata = md\<rparr>
      in process_chunks file_name pages_content title chunks
           (chunk_id_counter + 1) (doc_chunks @ [doc_chunk]))"

text \<open>
  Step 3: the loop over \<^verbatim>\<open>content_list\<close>. The text splitter of LangChain is the parameter
  \<open>split_text\<close>; it may raise, like everything inside the guarded block.
\<close>

fun process_sections ::
  "(string \<Rightarrow> error + string list) \<Rightarrow> string \<Rightarrow> page_info list \<Rightarrow>
     (string \<times> string) list \<Rightarrow> nat \<Rightarrow> document list \<Rightarrow> error + document list" where
  "process_sections split_text file_name pages_content [] chunk_id_counter doc_chunks =
     Inr doc_chunks"
| "process_sections split_text file_name pages_content ((title, section_text) # rest)
       chunk_id_counter doc_chunks =
     (if strip section_text = [] then
        process_sections split_text file_name pages_content rest chunk_id_counter doc_chunks
      else
        (case split_text section_text of
           Inl e \<Rightarrow> Inl e
         | Inr chunks \<Rightarrow>
             (case process_chunks file_name pages_content (strip title) chunks
                     chunk_id_counter doc_chunks of
                (counter', docs') \<Rightarrow>
                  process_sections split_text file_name pages_content rest counter' docs')))"

text \<open>The body of the guarded block: the chunks, or the exception raised inside it.\<close>

definition process_pdf_body ::
  "(string \<Rightarrow> error + string list) \<Rightarrow> (string \<Rightarrow> pdf_file) \<Rightarrow> string \<Rightarrow>
     error + document list" where
  "process_pdf_body split_text fs file_path =
     (let file_name = basename file_path
      in case fs file_path of
           OpenRaises e \<Rightarrow> Inl e
         | ReaderRaises e \<Rightarrow> Inl e
         | Pages pages \<Rightarrow>
             (case extract_pages 0 pages [] [] of
                Inl e \<Rightarrow> Inl e
              | Inr (pages_content, full_text) \<Rightarrow>
                  process_sections split_text file_name pages_content
                    (content_list full_text) 0 []))"

text \<open>
  The two handlers: \<^verbatim>\<open>except FileNotFoundError\<close> (the spec's \<^verbatim>\<open>NotFound\<close>) and
  \<^verbatim>\<open>except Exception\<close> (the spec's \<^verbatim>\<open>ProcessingError\<close>). Each prints its message and returns
  the empty list; \<open>process_pdf_outcome\<close> records which one ran.
\<close>

datatype outcome = Processed | NotFound | ProcessingError

definition process_pdf_outcome ::
  "(string \<Rightarrow> error + string list) \<Rightarrow> (string \<Rightarrow> pdf_file) \<Rightarrow> string \<Rightarrow> outcome" where
  "process_pdf_outcome split_text fs file_path =
     (case process_pdf_body split_text fs file_path of
        Inr doc_chunks \<Rightarrow> Processed
      | Inl FileNotFoundError \<Rightarrow> NotFound
      | Inl _ \<Rightarrow> ProcessingError)"

definition process_pdf ::
  "(string \<Rightarrow> error + string list) \<Rightarrow> (string \<Rightarrow> pdf_file) \<Rightarrow> string \<Rightarrow> document list" where
  "process_pdf split_text fs file_path =
     (case process_pdf_body split_text fs file_path of
        Inr doc_chunks \<Rightarrow> doc_chunks
      | Inl FileNotFoundError \<Rightarrow> []
      | Inl _ \<Rightarrow> [])"

section \<open>The cross-encoder re-ranker (rag/retrieval.py)\<close>

text \<open>
  The cross-encoder is an external model. Its \<^verbatim>\<open>predict\<close> takes the list of
  (query, passage) pairs and returns the array of scores. Scores are floats in the source;
  here they are any linear order (so NaN is outside the model).
\<close>

type_synonym 's cross_encoder = "(string \<times> string) list \<Rightarrow> 's list"

record 's reranker =
  model_name :: string
  top_n :: int
  cross_encoder :: "'s cross_encoder option"

text \<open>
  \<^verbatim>\<open>__init__\<close>: the constructor of \<^verbatim>\<open>CrossEncoder\<close> is the parameter \<open>load\<close>; when it
  raises, the exception is printed and \<^verbatim>\<open>self.cross_encoder\<close> stays \<^verbatim>\<open>None\<close>.
\<close>

definition init_reranker ::
  "(string \<Rightarrow> error + 's cross_encoder) \<Rightarrow> string \<Rightarrow> int \<Rightarrow> 's reranker" where
  "init_reranker load name n =
     \<lparr>model_name = name, top_n = n,
      cross_encoder = (case load name of Inl e \<Rightarrow> None | Inr m \<Rightarrow> Some m)\<rparr>"

text \<open>Python's slice \<^verbatim>\<open>xs[:n]\<close>; a negative \<open>n\<close> counts from the end.\<close>

definition slice_to :: "int \<Rightarrow> 'a list \<Rightarrow> 'a list" where
  "slice_to n xs =
     (if 0 \<le> n then take (nat n) xs else take (length xs - nat (- n)) xs)"

text \<open>
  \<^verbatim>\<open>sorted(xs, key=lambda x: x[1], reverse=True)\<close>: a stable sort in descending order of
  the key; CPython reverses the list, sorts it stably in ascending order and reverses
  the result, so that equal keys keep their original order.
\<close>

definition sorted_reverse :: "('a \<times> 's::linorder) list \<Rightarrow> ('a \<times> 's) list" where
  "sorted_reverse xs = rev (sort_key snd (rev xs))"

definition docs_with_scores ::
  "'s::linorder cross_encoder \<Rightarrow> document list \<Rightarrow> string \<Rightarrow> (document \<times> 's) list" where
  "docs_with_scores m doc_list query =
     (let passages = map page_content doc_list;
          scores = m (map (\<lambda>passage. (query, passage)) passages)
      in sorted_reverse (zip doc_list scores))"

text \<open>
  \<^verbatim>\<open>compress_documents\<close> returns the documents or raises; the second component of the
  result is the list of the batches passed to the model's \<^verbatim>\<open>predict\<close>, in order, so that
  "the model is not invoked" is the statement that this list is empty.
\<close>

definition compress_documents ::
  "'s::linorder reranker \<Rightarrow> document list \<Rightarrow> string \<Rightarrow>
     (error + document list) \<times> (string \<times> string) list list" where
  "compress_documents self documents query =
     (if documents = [] then (Inr [], [])
      else case cross_encoder self of
        None \<Rightarrow> (Inl RuntimeError, [])
      | Some m \<Rightarrow>
          (Inr (map fst (slice_to (top_n self) (docs_with_scores m documents query))),
           [map (\<lambda>passage. (query, passage)) (map page_content documents)]))"

section \<open>Building the retriever (rag/retrieval.py, rag/vector_store.py, models/llm_manager.py)\<close>

text \<open>
  The vector store is its collection: the stored texts with their metadata.
  \<^verbatim>\<open>get_all_documents\<close> makes one document of each row.
\<close>

record vector_store_manager =
  collection :: "(string \<times> metadata) list"

definition get_all_documents :: "vector_store_manager \<Rightarrow> document list" where
  "get_all_documents vsm =
     map (\<lambda>(content, md). \<lparr>page_content = content, metadata = md\<rparr>) (collection vsm)"

text \<open>
  \<^verbatim>\<open>_get_common_config\<close> looks the model key up in \<^verbatim>\<open>OLLAMA_MODELS\<close> and raises
  \<^verbatim>\<open>ValueError\<close> on an unknown key; \<^verbatim>\<open>get_llm\<close> and \<^verbatim>\<open>get_chat_model\<close> build a model
  from that configuration (the temperature and top-p constants are left out).
\<close>

definition OLLAMA_MODELS :: "(string \<times> string) list" where
  "OLLAMA_MODELS = [(''Mistral'', ''mistral:7b''), (''Llama2'', ''llama2:7b'')]"

definition get_common_config :: "string \<Rightarrow> error + string" where
  "get_common_config model_key =
     (case map_of OLLAMA_MODELS model_key of
        None \<Rightarrow> Inl ValueError
      | Some name \<Rightarrow> if name = [] then Inl ValueError else Inr name)"

datatype llm = OllamaLLM string | ChatOllama string

definition get_llm :: "string \<Rightarrow> error + llm" where
  "get_llm model_key =
     (case get_common_config model_key of Inl e \<Rightarrow> Inl e | Inr name \<Rightarrow> Inr (OllamaLLM name))"

definition get_chat_model :: "string \<Rightarrow> error + llm" where
  "get_chat_model model_key =
     (case get_common_config model_key of Inl e \<Rightarrow> Inl e | Inr name \<Rightarrow> Inr (ChatOllama name))"

text \<open>
  The retriever that \<^verbatim>\<open>get_advanced_retriever\<close> assembles from library parts, as the
  record of what it is built from: the BM25 retriever over all documents with \<open>k = 10\<close>,
  the vector retriever with \<open>k = 10\<close>, the ensemble weights, the chat model of the
  multi-query expansion, and the re-ranker with \<open>top_n = 4\<close>.
\<close>

record 's retriever =
  bm25_documents :: "document list"
  bm25_k :: nat
  chroma_k :: nat
  weights :: "real list"
  llm_for_query_expansion :: llm
  base_compressor :: "'s reranker"

text \<open>
  With no documents in the store the function prints a warning and returns \<^verbatim>\<open>None\<close>,
  before anything else is built.
\<close>

definition get_advanced_retriever ::
  "(string \<Rightarrow> error + 's cross_encoder) \<Rightarrow> vector_store_manager \<Rightarrow> string \<Rightarrow>
     error + 's retriever option" where
  "get_advanced_retriever load vsm model_key =
     (let all_docs = get_all_documents vsm
      in if all_docs = [] then Inr None
         else
           (case get_chat_model model_key of
              Inl e \<Rightarrow> Inl e
            | Inr chat \<Rightarrow>
                Inr (Some \<lparr>bm25_documents = all_docs, bm25_k = 10, chroma_k = 10,
                           weights = [0.5, 0.5], llm_for_query_expansion = chat,
                           base_compressor =
                             init_reranker load ''cross-encoder/ms-marco-MiniLM-L-6-v2'' 4\<rparr>)))"

record 's qa_chain =
  chain_llm :: llm
  chain_type :: string
  chain_retriever :: "'s retriever"
  return_source_documents :: bool

definition get_rag_chain ::
  "(string \<Rightarrow> error + 's cross_encoder) \<Rightarrow> string \<Rightarrow> vector_store_manager \<Rightarrow>
     error + 's qa_chain option" where
  "get_rag_chain load model_key vsm =
     (case get_advanced_retriever load vsm model_key of
        Inl e \<Rightarrow> Inl e
      | Inr None \<Rightarrow> Inr None
      | Inr (Some advanced_retriever) \<Rightarrow>
          (case get_llm model_key of
             Inl e \<Rightarrow> Inl e
           | Inr l \<Rightarrow>
               Inr (Some \<lparr>chain_llm = l, chain_type = ''stuff'',
                          chain_retriever = advanced_retriever,
                          return_source_documents = True\<rparr>)))"

section \<open>Notions used to state the properties\<close>

text \<open>
  The number printed in a chunk id: the decimal value of what follows \<^verbatim>\<open>chunk_\<close>.
\<close>

definition chunk_number :: "string \<Rightarrow> nat" where
  "chunk_number cid = foldl (\<lambda>a c. 10 * a + (of_char c - 48)) 0 (drop 6 cid)"



text \<open>
  What the pattern says, without the matcher: a title is an upper-case letter followed by
  five or more characters of the class; a header stands at the start of \<open>s\<close> when \<open>s\<close>
  begins with a title and a newline; and position \<open>i\<close> of the text is a header position
  when it starts a line and a header stands there.
\<close>

definition header_title :: "string \<Rightarrow> bool" where
  "header_title title =
     (case title of
        [] \<Rightarrow> False
      | c # body \<Rightarrow> is_upper c \<and> 5 \<le> length body \<and> list_all in_header_class body)"

definition header_prefix :: "string \<Rightarrow> string \<Rightarrow> bool" where
  "header_prefix title s = (header_title title \<and> prefix (title @ [newline]) s)"

definition header_at :: "string \<Rightarrow> nat \<Rightarrow> bool" where
  "header_at full_text i =
     (i < length full_text \<and> (i = 0 \<or> full_text ! (i - 1) = newline) \<and>
      list_ex (\<lambda>title. header_prefix title (drop i full_text)) (prefixes (drop i full_text)))"

text \<open>Position \<open>j\<close> of \<open>s\<close> starts a line, \<open>bol\<close> saying whether position 0 does.\<close>

definition line_start :: "bool \<Rightarrow> string \<Rightarrow> nat \<Rightarrow> bool" where
  "line_start bol s j = (if j = 0 then bol else s ! (j - 1) = newline)"

text \<open>
  The header criterion in the words of the specification, on one line of the text: an
  upper-case letter followed by six or more characters of the class. The lines of a text
  are what stands between its newlines.
\<close>

definition claimed_header_line :: "string \<Rightarrow> bool" where
  "claimed_header_line l =
     (case l of
        [] \<Rightarrow> False
      | c # body \<Rightarrow> is_upper c \<and> 6 \<le> length body \<and> list_all in_header_class body)"

fun split_lines :: "string \<Rightarrow> string list" where
  "split_lines [] = [[]]"
| "split_lines (c # cs) =
     (if c = newline then [] # split_lines cs
      else (case split_lines cs of
              [] \<Rightarrow> [[c]]
            | l # ls \<Rightarrow> (c # l) # ls))"

section \<open>Concrete inputs\<close>

text \<open>
  Three candidates and a model that scores a passage by its length, with \<open>top_n = 2\<close>.
\<close>

definition demo_doc :: "string \<Rightarrow> document" where
  "demo_doc t = \<lparr>page_content = t,
     metadata = \<lparr>source = ''policy.pdf'', page = NA, chunk_id = ''chunk_0'',
       section_title = ''General''\<rparr>\<rparr>"

definition demo_model :: "int cross_encoder" where
  "demo_model pairs = map (\<lambda>(q, p). int (length p)) pairs"

definition demo_reranker :: "int reranker" where
  "demo_reranker = \<lparr>model_name = ''cross-encoder/ms-marco-MiniLM-L-6-v2'', top_n = 2,
     cross_encoder = Some demo_model\<rparr>"

text \<open>
  A splitter that cuts a section into two overlapping pieces and fails on a section that
  starts with an exclamation mark, and a file system with four paths: a document of
  three pages (the second without text), a document whose second page cannot be
  extracted, a document without any text, and a document whose second section makes the
  splitter fail. Every other path is missing.
\<close>

definition demo_split :: "string \<Rightarrow> error + string list" where
  "demo_split t =
     (if take 1 t = ''!'' then Inl OtherException
      else Inr [take 12 (strip t), drop 8 (strip t)])"

definition demo_policy_pages :: "(error + string) list" where
  "demo_policy_pages =
     [Inr ''Zurich policy overview'', Inr [], Inr ''ELIGIBILITY\<newline>All employees are eligible'']"

definition demo_chunk :: "string \<Rightarrow> nat \<Rightarrow> string \<Rightarrow> string \<Rightarrow> document" where
  "demo_chunk t p cid sec =
     \<lparr>page_content = t,
      metadata = \<lparr>source = ''policy.pdf'', page = PageNum p, chunk_id = cid,
        section_title = sec\<rparr>\<rparr>"

definition demo_policy_chunks :: "document list" where
  "demo_policy_chunks =
     [demo_chunk ''Zurich polic'' 1 ''chunk_0'' ''Introduction'',
      demo_chunk ''olicy overview'' 1 ''chunk_1'' ''Introduction'',
      demo_chunk ''All employee'' 3 ''chunk_2'' ''ELIGIBILITY'',
      demo_chunk ''oyees are eligible'' 3 ''chunk_3'' ''ELIGIBILITY'']"

definition demo_fs :: "string \<Rightarrow> pdf_file" where
  "demo_fs p =
     (if p = ''docs/policy.pdf'' then
        Pages demo_policy_pages
      else if p = ''docs/broken.pdf'' then
        Pages [Inr ''COVERAGE\<newline>Everything'', Inl OtherException]
      else if p = ''docs/scan.pdf'' then
        Pages [Inr [], Inr []]
      else if p = ''docs/late.pdf'' then
        Pages [Inr ''Preface\<newline>DEFINITIONS\<newline>!terms'']
      else OpenRaises FileNotFoundError)"

section \<open>Two runs of process_pdf\<close>

lemma demo_policy_run:
  "process_pdf demo_split demo_fs ''docs/policy.pdf'' = demo_policy_chunks"
  by code_simp


section \<open>Properties of the re-ranker\<close>

lemma sorted_reverse_desc: "sorted_wrt (\<lambda>a b. snd b \<le> snd a) (sorted_reverse xs)"
proof -
  have "sorted (map snd (sort_key snd (rev xs)))"
    by (rule sorted_sort_key)
  then have "sorted_wrt (\<lambda>a b. snd a \<le> snd b) (sort_key snd (rev xs))"
    by (simp add: sorted_wrt_map)
  then show ?thesis
    by (simp add: sorted_reverse_def sorted_wrt_rev)
qed

lemma mset_sorted_reverse: "mset (sorted_reverse xs) = mset xs"
  by (simp add: sorted_reverse_def)

lemma slice_to_take: "0 \<le> n \<Longrightarrow> slice_to n xs = take (nat n) xs"
  by (simp add: slice_to_def)

text \<open>
  Claim C2. With the model loaded and \<open>top_n\<close> a count (not negative; the repository
  builds the re-ranker with \<open>top_n = 4\<close>), a non-empty candidate list gives the first
  \<open>top_n\<close> entries of the candidates sorted in descending order of their scores: the
  result has at most \<open>top_n\<close> documents, the kept entries followed by the dropped ones
  are in descending score order and are exactly the scored candidates, and the model is
  called once, on the (query, passage) pairs. The empty candidate list gives the empty
  list, and the model is not called.
\<close>

theorem compress_documents_top_n_sorted:
  "compress_documents self [] query = (Inr [], []) \<and>
   (cross_encoder self = Some m \<longrightarrow> documents \<noteq> [] \<longrightarrow> 0 \<le> top_n self \<longrightarrow>
      (\<exists>kept dropped.
         compress_documents self documents query =
           (Inr (map fst kept), [map (\<lambda>d. (query, page_content d)) documents]) \<and>
         int (length kept) \<le> top_n self \<and>
         sorted_wrt (\<lambda>a b. snd b \<le> snd a) (kept @ dropped) \<and>
         mset (kept @ dropped) =
           mset (zip documents (m (map (\<lambda>d. (query, page_content d)) documents)))))"
proof (intro conjI impI)
  show "compress_documents self [] query = (Inr [], [])"
    by (simp add: compress_documents_def)
next
  assume m: "cross_encoder self = Some m" and ne: "documents \<noteq> []"
    and n: "0 \<le> top_n self"
  define ranked where "ranked = docs_with_scores m documents query"
  have ranked_eq: "ranked =
      sorted_reverse (zip documents (m (map (\<lambda>d. (query, page_content d)) documents)))"
    by (simp add: ranked_def docs_with_scores_def comp_def)
  let ?kept = "take (nat (top_n self)) ranked"
  let ?dropped = "drop (nat (top_n self)) ranked"
  have "compress_documents self documents query =
      (Inr (map fst ?kept), [map (\<lambda>d. (query, page_content d)) documents])"
    using m ne n by (simp add: compress_documents_def slice_to_take ranked_def comp_def)
  moreover have "int (length ?kept) \<le> top_n self"
    using n by simp
  moreover have "sorted_wrt (\<lambda>a b. snd b \<le> snd a) (?kept @ ?dropped)"
    by (simp add: ranked_eq sorted_reverse_desc)
  moreover have "mset (?kept @ ?dropped) =
      mset (zip documents (m (map (\<lambda>d. (query, page_content d)) documents)))"
    by (simp add: ranked_eq mset_sorted_reverse)
  ultimately show "\<exists>kept dropped.
         compress_documents self documents query =
           (Inr (map fst kept), [map (\<lambda>d. (query, page_content d)) documents]) \<and>
         int (length kept) \<le> top_n self \<and>
         sorted_wrt (\<lambda>a b. snd b \<le> snd a) (kept @ dropped) \<and>
         mset (kept @ dropped) =
           mset (zip documents (m (map (\<lambda>d. (query, page_content d)) documents)))"
    by blast
qed


theorem compress_documents_top_n_sorted_witness:
  "cross_encoder demo_reranker = Some demo_model \<and>
   [demo_doc ''bb'', demo_doc ''a'', demo_doc ''cccc''] \<noteq> [] \<and>
   0 \<le> top_n demo_reranker \<and>
   compress_documents demo_reranker [demo_doc ''bb'', demo_doc ''a'', demo_doc ''cccc''] ''q'' =
     (Inr [demo_doc ''cccc'', demo_doc ''bb''],
      [[(''q'', ''bb''), (''q'', ''a''), (''q'', ''cccc'')]]) \<and>
   (\<exists>kept dropped.
      compress_documents demo_reranker [demo_doc ''bb'', demo_doc ''a'', demo_doc ''cccc''] ''q'' =
        (Inr (map fst kept),
         [map (\<lambda>d. (''q'', page_content d)) [demo_doc ''bb'', demo_doc ''a'', demo_doc ''cccc'']]) \<and>
      int (length kept) \<le> top_n demo_reranker \<and>
      sorted_wrt (\<lambda>a b. snd b \<le> snd a) (kept @ dropped) \<and>
      mset (kept @ dropped) =
        mset (zip [demo_doc ''bb'', demo_doc ''a'', demo_doc ''cccc'']
          (demo_model (map (\<lambda>d. (''q'', page_content d))
             [demo_doc ''bb'', demo_doc ''a'', demo_doc ''cccc'']))))"
proof -
  have h1: "cross_encoder demo_reranker = Some demo_model"
    by (simp add: demo_reranker_def)
  have h2: "[demo_doc ''bb'', demo_doc ''a'', demo_doc ''cccc''] \<noteq> []"
    by simp
  have h3: "0 \<le> top_n demo_reranker"
    by (simp add: demo_reranker_def)
  have run: "compress_documents demo_reranker
      [demo_doc ''bb'', demo_doc ''a'', demo_doc ''cccc''] ''q'' =
     (Inr [demo_doc ''cccc'', demo_doc ''bb''],
      [[(''q'', ''bb''), (''q'', ''a''), (''q'', ''cccc'')]])"
    by (simp add: compress_documents_def demo_reranker_def demo_model_def demo_doc_def
        docs_with_scores_def sorted_reverse_def slice_to_def)
  from compress_documents_top_n_sorted
    [of demo_reranker "''q''" demo_model "[demo_doc ''bb'', demo_doc ''a'', demo_doc ''cccc'']"]
    h1 h2 h3 run
  show ?thesis by blast
qed

text \<open>
  Claim C3. When the model handle is \<^verbatim>\<open>None\<close> (in particular when loading the model
  raised in the initializer), every call with a non-empty candidate list raises the
  \<^verbatim>\<open>RuntimeError\<close> (the spec's \<^verbatim>\<open>ModelUnavailable\<close>); no candidates are returned.
\<close>

theorem compress_documents_model_unavailable:
  "(cross_encoder self = None \<longrightarrow> documents \<noteq> [] \<longrightarrow>
      compress_documents self documents query = (Inl RuntimeError, [])) \<and>
   (load name = Inl e \<longrightarrow> documents \<noteq> [] \<longrightarrow>
      compress_documents (init_reranker load name n) documents query = (Inl RuntimeError, []))"
  by (simp add: compress_documents_def init_reranker_def)

theorem compress_documents_model_unavailable_witness:
  "cross_encoder (demo_reranker\<lparr>cross_encoder := None\<rparr>) = None \<and>
   [demo_doc ''bb''] \<noteq> [] \<and>
   compress_documents (demo_reranker\<lparr>cross_encoder := None\<rparr>) [demo_doc ''bb''] ''q'' =
     (Inl RuntimeError, []) \<and>
   (\<lambda>name. Inl OtherException :: error + int cross_encoder) ''m'' = Inl OtherException \<and>
   compress_documents
     (init_reranker (\<lambda>name. Inl OtherException :: error + int cross_encoder) ''m'' 4)
     [demo_doc ''bb''] ''q'' = (Inl RuntimeError, [])"
  using compress_documents_model_unavailable
    [of "demo_reranker\<lparr>cross_encoder := None\<rparr>" "[demo_doc ''bb'']" "''q''"
        "\<lambda>name. Inl OtherException" "''m''" OtherException 4]
  by simp

text \<open>
  Claim C10. The test for the empty candidate list comes first: on the empty list the
  result is the empty list, with no call of the model, also when the model handle is
  \<^verbatim>\<open>None\<close>; the \<^verbatim>\<open>RuntimeError\<close> cannot be raised on empty input.
\<close>

theorem compress_documents_empty_before_model_check:
  "compress_documents (self\<lparr>cross_encoder := None\<rparr>) [] query = (Inr [], []) \<and>
   compress_documents (init_reranker (\<lambda>name. Inl e) name n) [] query = (Inr [], []) \<and>
   fst (compress_documents self [] query) \<noteq> Inl RuntimeError"
  by (simp add: compress_documents_def)

section \<open>Properties of the chunk loop\<close>

lemma of_char_digit_char: "d < 10 \<Longrightarrow> (of_char (digit_char d) :: nat) = 48 + d"
  by (simp add: digit_char_def)

lemma chunk_number_str_nat: "chunk_number (chunk_id_str n) = n"
proof -
  have "foldl (\<lambda>a c. 10 * a + (of_char c - 48)) 0 (str_nat n) = n"
  proof (induction n rule: str_nat.induct)
    case (1 n)
    show ?case
    proof (cases "n < 10")
      case True
      then show ?thesis
        by (subst str_nat.simps) (simp add: of_char_digit_char)
    next
      case False
      then have "foldl (\<lambda>a c. 10 * a + (of_char c - 48)) 0 (str_nat (n div 10)) = n div 10"
        using "1.IH" by simp
      with False show ?thesis
        by (subst str_nat.simps) (simp add: of_char_digit_char)
    qed
  qed
  then show ?thesis
    by (simp add: chunk_number_def chunk_id_str_def)
qed

lemma chunk_id_inj: "inj chunk_id_str"
  by (rule inj_on_inverseI [where g = chunk_number]) (rule chunk_number_str_nat)

lemma process_chunks_counter:
  "fst (process_chunks fn pc title chunks n docs) = n + length chunks"
  by (induction chunks arbitrary: n docs) (simp_all add: Let_def)

lemma process_chunks_ids:
  "map (\<lambda>d. chunk_id (metadata d)) (snd (process_chunks fn pc title chunks n docs)) =
     map (\<lambda>d. chunk_id (metadata d)) docs @
     map chunk_id_str [n ..< n + length chunks]"
proof (induction chunks arbitrary: n docs)
  case Nil
  then show ?case by simp
next
  case (Cons c cs)
  have "[n ..< n + length (c # cs)] = n # [Suc n ..< Suc n + length cs]"
    by (subst upt_rec) simp
  then show ?case
    by (simp add: Let_def Cons.IH del: upt_Suc)
qed

lemma process_chunks_length:
  "length (snd (process_chunks fn pc title chunks n docs)) = length docs + length chunks"
  by (induction chunks arbitrary: n docs) (simp_all add: Let_def)


lemma process_sections_ids:
  "process_sections split_text fn pc secs n docs = Inr out \<Longrightarrow>
   n = length docs \<Longrightarrow>
   map (\<lambda>d. chunk_id (metadata d)) docs = map chunk_id_str [0 ..< length docs] \<Longrightarrow>
   map (\<lambda>d. chunk_id (metadata d)) out = map chunk_id_str [0 ..< length out]"
proof (induction secs arbitrary: n docs)
  case Nil
  then show ?case by simp
next
  case (Cons sec secs)
  obtain title body where sec: "sec = (title, body)"
    by (cases sec)
  show ?case
  proof (cases "strip body = []")
    case True
    with Cons.prems sec have "process_sections split_text fn pc secs n docs = Inr out"
      by simp
    from Cons.IH [OF this Cons.prems(2,3)] show ?thesis .
  next
    case False
    with Cons.prems(1) sec obtain chunks n' docs' where
      step: "process_chunks fn pc (strip title) chunks n docs = (n', docs')" and
      run: "process_sections split_text fn pc secs n' docs' = Inr out"
      by (auto split: sum.splits prod.splits)
    have n': "n' = n + length chunks"
      using process_chunks_counter [of fn pc "strip title" chunks n docs] step by simp
    have len': "length docs' = length docs + length chunks"
      using process_chunks_length [of fn pc "strip title" chunks n docs] step by simp
    have len: "n' = length docs'"
      using n' len' Cons.prems(2) by simp
    have upt: "[0 ..< length docs + length chunks] =
        [0 ..< length docs] @ [length docs ..< length docs + length chunks]"
      by (metis upt_add_eq_append zero_le)
    have "map (\<lambda>d. chunk_id (metadata d)) docs' =
        map (\<lambda>d. chunk_id (metadata d)) docs @ map chunk_id_str [n ..< n + length chunks]"
      using process_chunks_ids [of fn pc "strip title" chunks n docs] step by simp
    then have ids: "map (\<lambda>d. chunk_id (metadata d)) docs' = map chunk_id_str [0 ..< length docs']"
      using Cons.prems(2,3) by (simp add: len' upt)
    from Cons.IH [OF run len ids] show ?thesis .
  qed
qed




lemma extract_pages_no_text:
  "\<forall>p \<in> set pages. p = Inr [] \<Longrightarrow> extract_pages n pages pc ft = Inr (pc, ft)"
  by (induction pages arbitrary: n) simp_all


lemma content_list_empty: "content_list [] = [(''General'', [])]"
  by (simp add: content_list_def re_split.simps)


text \<open>
  Claim C6. In one run of \<open>process_pdf\<close> the chunk ids are \<^verbatim>\<open>chunk_0\<close>, \<^verbatim>\<open>chunk_1\<close>, ... in
  output order, over the whole document: the numbers in them are 0, 1, 2, ... (so they
  increase strictly, and no section restarts them), and the ids are pairwise distinct.
\<close>

theorem process_pdf_chunk_ids_increasing:
  "map (\<lambda>d. chunk_id (metadata d)) (process_pdf split_text fs file_path) =
     map chunk_id_str [0 ..< length (process_pdf split_text fs file_path)] \<and>
   map (\<lambda>d. chunk_number (chunk_id (metadata d))) (process_pdf split_text fs file_path) =
     [0 ..< length (process_pdf split_text fs file_path)] \<and>
   sorted_wrt (<) (map (\<lambda>d. chunk_number (chunk_id (metadata d)))
     (process_pdf split_text fs file_path)) \<and>
   distinct (map (\<lambda>d. chunk_id (metadata d)) (process_pdf split_text fs file_path))"
proof -
  let ?out = "process_pdf split_text fs file_path"
  have ids: "map (\<lambda>d. chunk_id (metadata d)) ?out = map chunk_id_str [0 ..< length ?out]"
  proof (cases "process_pdf_body split_text fs file_path")
    case (Inl e)
    then show ?thesis
      by (cases e) (simp_all add: process_pdf_def)
  next
    case (Inr docs)
    then obtain pc secs where
      "process_sections split_text (basename file_path) pc secs 0 [] = Inr docs"
      by (auto simp: process_pdf_body_def Let_def split: pdf_file.splits sum.splits prod.splits)
    from process_sections_ids [OF this] Inr show ?thesis
      by (simp add: process_pdf_def)
  qed
  have "map (\<lambda>d. chunk_number (chunk_id (metadata d))) ?out =
      map chunk_number (map (\<lambda>d. chunk_id (metadata d)) ?out)"
    by (simp add: comp_def)
  also have "\<dots> = map (\<lambda>i. chunk_number (chunk_id_str i)) [0 ..< length ?out]"
    by (simp only: ids map_map comp_def)
  also have "\<dots> = [0 ..< length ?out]"
    by (simp add: chunk_number_str_nat map_idI)
  finally have nums: "map (\<lambda>d. chunk_number (chunk_id (metadata d))) ?out = [0 ..< length ?out]" .
  have "sorted_wrt (<) [0 ..< length ?out]"
    by (rule sorted_wrt_upt)
  then have sorted: "sorted_wrt (<) (map (\<lambda>d. chunk_number (chunk_id (metadata d))) ?out)"
    by (simp only: nums)
  have "distinct (map chunk_id_str [0 ..< length ?out])"
    by (simp add: distinct_map inj_on_subset [OF chunk_id_inj])
  then have "distinct (map (\<lambda>d. chunk_id (metadata d)) ?out)"
    by (simp only: ids)
  with ids nums sorted show ?thesis
    by blast
qed

theorem process_pdf_chunk_ids_increasing_witness:
  "map (\<lambda>d. chunk_id (metadata d)) (process_pdf demo_split demo_fs ''docs/policy.pdf'') =
     [''chunk_0'', ''chunk_1'', ''chunk_2'', ''chunk_3''] \<and>
   map (\<lambda>d. section_title (metadata d)) (process_pdf demo_split demo_fs ''docs/policy.pdf'') =
     [''Introduction'', ''Introduction'', ''ELIGIBILITY'', ''ELIGIBILITY''] \<and>
   map (\<lambda>d. chunk_number (chunk_id (metadata d)))
     (process_pdf demo_split demo_fs ''docs/policy.pdf'') = [0 ..< 4] \<and>
   sorted_wrt (<) (map (\<lambda>d. chunk_number (chunk_id (metadata d)))
     (process_pdf demo_split demo_fs ''docs/policy.pdf'')) \<and>
   distinct (map (\<lambda>d. chunk_id (metadata d))
     (process_pdf demo_split demo_fs ''docs/policy.pdf''))"
proof -
  have ids: "map (\<lambda>d. chunk_id (metadata d))
      (process_pdf demo_split demo_fs ''docs/policy.pdf'') =
     [''chunk_0'', ''chunk_1'', ''chunk_2'', ''chunk_3'']"
    by (simp add: demo_policy_run demo_policy_chunks_def demo_chunk_def)
  have secs: "map (\<lambda>d. section_title (metadata d))
      (process_pdf demo_split demo_fs ''docs/policy.pdf'') =
     [''Introduction'', ''Introduction'', ''ELIGIBILITY'', ''ELIGIBILITY'']"
    by (simp add: demo_policy_run demo_policy_chunks_def demo_chunk_def)
  have len: "length (process_pdf demo_split demo_fs ''docs/policy.pdf'') = 4"
    by (simp add: demo_policy_run demo_policy_chunks_def)
  note run = process_pdf_chunk_ids_increasing [of demo_split demo_fs "''docs/policy.pdf''"]
  from run have nums: "map (\<lambda>d. chunk_number (chunk_id (metadata d)))
      (process_pdf demo_split demo_fs ''docs/policy.pdf'') = [0 ..< 4]"
    by (simp only: len)
  from run have srt: "sorted_wrt (<) (map (\<lambda>d. chunk_number (chunk_id (metadata d)))
      (process_pdf demo_split demo_fs ''docs/policy.pdf''))"
    and dst: "distinct (map (\<lambda>d. chunk_id (metadata d))
      (process_pdf demo_split demo_fs ''docs/policy.pdf''))"
    by blast+
  from ids secs nums srt dst show ?thesis
    by (intro conjI)
qed

text \<open>
  Claim C9. A document none of whose pages yields text (every \<^verbatim>\<open>extract_text()\<close> returns
  the empty string, or there is no page) gives the empty chunk list, and no exception is
  raised on the way: the guarded block ends normally.
\<close>

theorem process_pdf_no_text_empty:
  "fs file_path = Pages pages \<Longrightarrow> \<forall>p \<in> set pages. p = Inr [] \<Longrightarrow>
   process_pdf_body split_text fs file_path = Inr [] \<and>
   process_pdf split_text fs file_path = [] \<and>
   process_pdf_outcome split_text fs file_path = Processed"
  by (simp add: process_pdf_def process_pdf_outcome_def process_pdf_body_def
      extract_pages_no_text content_list_empty strip_def)

theorem process_pdf_no_text_empty_witness:
  "demo_fs ''docs/scan.pdf'' = Pages [Inr [], Inr []] \<and>
   process_pdf_body demo_split demo_fs ''docs/scan.pdf'' = Inr [] \<and>
   process_pdf demo_split demo_fs ''docs/scan.pdf'' = [] \<and>
   process_pdf_outcome demo_split demo_fs ''docs/scan.pdf'' = Processed"
proof -
  have h: "demo_fs ''docs/scan.pdf'' = Pages [Inr [], Inr []]"
    by (simp add: demo_fs_def)
  have all: "\<forall>p \<in> set [Inr [], Inr [] :: error + string]. p = Inr []"
    by simp
  from process_pdf_no_text_empty [where fs = demo_fs and file_path = "''docs/scan.pdf''"
      and pages = "[Inr [], Inr []]" and split_text = demo_split] h all
  show ?thesis
    by blast
qed





section \<open>Properties of the section split\<close>

lemma header_rest_sound:
  "header_rest n cs = Some k \<Longrightarrow>
   n \<le> k \<and> 5 \<le> k \<and> k - n < length cs \<and>
   list_all in_header_class (take (k - n) cs) \<and> cs ! (k - n) = newline"
proof (induction cs arbitrary: n)
  case Nil
  then show ?case by simp
next
  case (Cons c cs)
  show ?case
  proof (cases "if in_header_class c then header_rest (Suc n) cs else None")
    case None
    with Cons.prems have "5 \<le> n" "c = newline" "k = n"
      by (auto split: if_splits)
    then show ?thesis by simp
  next
    case (Some k')
    with Cons.prems have k: "k' = k" and c: "in_header_class c"
      and rest: "header_rest (Suc n) cs = Some k"
      by (auto split: if_splits)
    from Cons.IH [OF rest] have ih: "Suc n \<le> k" "5 \<le> k" "k - Suc n < length cs"
      "list_all in_header_class (take (k - Suc n) cs)" "cs ! (k - Suc n) = newline"
      by simp_all
    from ih(1) have "k - n = Suc (k - Suc n)" by simp
    with ih c show ?thesis by simp
  qed
qed

lemma header_rest_complete:
  "j < length cs \<Longrightarrow> list_all in_header_class (take j cs) \<Longrightarrow> cs ! j = newline \<Longrightarrow>
   5 \<le> n + j \<Longrightarrow> \<exists>k. header_rest n cs = Some k \<and> n + j \<le> k"
proof (induction cs arbitrary: n j)
  case Nil
  then show ?case by simp
next
  case (Cons c cs)
  show ?case
  proof (cases j)
    case 0
    with Cons.prems have c: "c = newline" and n: "5 \<le> n" by simp_all
    show ?thesis
    proof (cases "if in_header_class c then header_rest (Suc n) cs else None")
      case None
      with c n 0 show ?thesis by simp
    next
      case (Some k)
      then have "header_rest (Suc n) cs = Some k"
        by (auto split: if_splits)
      from header_rest_sound [OF this] Some 0 show ?thesis by simp
    qed
  next
    case (Suc j')
    with Cons.prems have "j' < length cs" "list_all in_header_class (take j' cs)"
      "cs ! j' = newline" "5 \<le> Suc n + j'" and c: "in_header_class c"
      by simp_all
    from Cons.IH [OF this(1-4)] obtain k where "header_rest (Suc n) cs = Some k" "Suc n + j' \<le> k"
      by blast
    with c Suc show ?thesis by simp
  qed
qed

lemma match_header_sound:
  assumes "match_header s = Some (title, rest)"
  shows "s = title @ newline # rest \<and> header_title title"
proof -
  from assms obtain c cs k where s: "s = c # cs" and c: "is_upper c"
    and k: "header_rest 0 cs = Some k" and title: "title = c # take k cs"
    and rest: "rest = drop (Suc k) cs"
    by (auto simp: match_header_def split: list.splits if_splits option.splits)
  from header_rest_sound [OF k] have "5 \<le> k" "k < length cs"
    "list_all in_header_class (take k cs)" "cs ! k = newline"
    by simp_all
  moreover from this have "cs = take k cs @ newline # drop (Suc k) cs"
    using id_take_nth_drop [of k cs] by simp
  ultimately show ?thesis
    using s c title rest by (simp add: header_title_def)
qed

lemma match_header_complete:
  assumes "header_prefix t s"
  shows "\<exists>title rest. match_header s = Some (title, rest) \<and> length t \<le> length title"
proof -
  from assms obtain c body where t: "t = c # body" and c: "is_upper c"
    and len: "5 \<le> length body" and cls: "list_all in_header_class body"
    by (auto simp: header_prefix_def header_title_def split: list.splits)
  from assms t obtain rest where s: "s = c # body @ newline # rest"
    by (auto simp: header_prefix_def prefix_def)
  have "\<exists>k. header_rest 0 (body @ newline # rest) = Some k \<and> 0 + length body \<le> k"
    by (rule header_rest_complete) (use len cls in simp_all)
  then obtain k where k: "header_rest 0 (body @ newline # rest) = Some k" "length body \<le> k"
    by auto
  from header_rest_sound [OF k(1)] have "k < length (body @ newline # rest)"
    by simp
  with k s c t show ?thesis
    by (simp add: match_header_def)
qed

lemma header_prefix_list_ex:
  "list_ex (\<lambda>title. header_prefix title s) (prefixes s) \<longleftrightarrow> (\<exists>title. header_prefix title s)"
proof
  assume "list_ex (\<lambda>title. header_prefix title s) (prefixes s)"
  then show "\<exists>title. header_prefix title s"
    by (auto simp: list_ex_iff)
next
  assume "\<exists>title. header_prefix title s"
  then obtain title where t: "header_prefix title s" ..
  then have "prefix title s"
    by (auto simp: header_prefix_def dest: append_prefixD)
  with t show "list_ex (\<lambda>title. header_prefix title s) (prefixes s)"
    by (auto simp: list_ex_iff)
qed

lemma header_at_iff:
  "header_at full_text i \<longleftrightarrow>
     i < length full_text \<and> (i = 0 \<or> full_text ! (i - 1) = newline) \<and>
     (\<exists>title. header_prefix title (drop i full_text))"
  by (simp only: header_at_def header_prefix_list_ex)

lemma match_header_None_iff: "match_header s = None \<longleftrightarrow> \<not> (\<exists>title. header_prefix title s)"
proof
  assume none: "match_header s = None"
  show "\<not> (\<exists>title. header_prefix title s)"
  proof
    assume "\<exists>title. header_prefix title s"
    then obtain t where "header_prefix t s" ..
    from match_header_complete [OF this] none show False by simp
  qed
next
  assume no: "\<not> (\<exists>title. header_prefix title s)"
  show "match_header s = None"
  proof (cases "match_header s")
    case None
    then show ?thesis .
  next
    case (Some m)
    obtain title rest where "m = (title, rest)" by (cases m)
    with Some match_header_sound [of s title rest] have "header_prefix title s"
      by (simp add: header_prefix_def)
    with no show ?thesis by blast
  qed
qed

lemma line_start_Cons: "line_start bol (c # cs) (Suc j) = line_start (c = newline) cs j"
  by (cases j) (simp_all add: line_start_def)

lemma search_header_None:
  "search_header bol s = None \<Longrightarrow> j < length s \<Longrightarrow> line_start bol s j \<Longrightarrow>
   match_header (drop j s) = None"
proof (induction s arbitrary: bol j)
  case Nil
  then show ?case by simp
next
  case (Cons c cs)
  from Cons.prems(1) have here: "(if bol then match_header (c # cs) else None) = None"
    and later: "search_header (c = newline) cs = None"
    by (auto split: option.splits prod.splits)
  show ?case
  proof (cases j)
    case 0
    with Cons.prems(3) here show ?thesis
      by (simp add: line_start_def)
  next
    case (Suc j')
    with Cons.prems have "j' < length cs" "line_start (c = newline) cs j'"
      by (simp_all add: line_start_Cons)
    from Cons.IH [OF later this] Suc show ?thesis by simp
  qed
qed

lemma search_header_Some:
  "search_header bol s = Some (before, title, rest) \<Longrightarrow>
   s = before @ title @ newline # rest \<and> header_title title \<and>
   match_header (drop (length before) s) = Some (title, rest) \<and>
   line_start bol s (length before) \<and>
   (\<forall>j < length before. line_start bol s j \<longrightarrow> match_header (drop j s) = None)"
proof (induction s arbitrary: bol before)
  case Nil
  then show ?case by simp
next
  case (Cons c cs)
  show ?case
  proof (cases "if bol then match_header (c # cs) else None")
    case (Some m)
    with Cons.prems have m: "match_header (c # cs) = Some (title, rest)" and bol: bol
      and before: "before = []"
      by (auto split: if_splits prod.splits)
    from match_header_sound [OF m] m bol before show ?thesis
      by (simp add: line_start_def)
  next
    case None
    with Cons.prems obtain b where
      later: "search_header (c = newline) cs = Some (b, title, rest)" and
      before: "before = c # b"
      by (auto split: option.splits)
    note IH = Cons.IH [OF later]
    note ih = IH [THEN conjunct1] IH [THEN conjunct2, THEN conjunct1]
      IH [THEN conjunct2, THEN conjunct2, THEN conjunct1]
      IH [THEN conjunct2, THEN conjunct2, THEN conjunct2, THEN conjunct1]
      IH [THEN conjunct2, THEN conjunct2, THEN conjunct2, THEN conjunct2]
    have "line_start bol (c # cs) j \<longrightarrow> match_header (drop j (c # cs)) = None"
      if "j < length before" for j
    proof (cases j)
      case 0
      with None show ?thesis
        by (auto simp: line_start_def split: if_splits)
    next
      case (Suc j')
      with that before ih(5) show ?thesis
        by (simp add: line_start_Cons)
    qed
    with ih before show ?thesis
      by (simp add: line_start_Cons)
  qed
qed

lemma search_header_text:
  "search_header bol s = Some (before, title, rest) \<Longrightarrow> s = before @ title @ newline # rest"
  by (rule search_header_Some [THEN conjunct1])

lemma search_header_match:
  "search_header bol s = Some (before, title, rest) \<Longrightarrow>
   match_header (drop (length before) s) = Some (title, rest)"
  by (rule search_header_Some [THEN conjunct2, THEN conjunct2, THEN conjunct1])

lemma search_header_line_start:
  "search_header bol s = Some (before, title, rest) \<Longrightarrow> line_start bol s (length before)"
  by (rule search_header_Some [THEN conjunct2, THEN conjunct2, THEN conjunct2, THEN conjunct1])

lemma search_header_first:
  "search_header bol s = Some (before, title, rest) \<Longrightarrow> j < length before \<Longrightarrow>
   line_start bol s j \<Longrightarrow> match_header (drop j s) = None"
  using search_header_Some [THEN conjunct2, THEN conjunct2, THEN conjunct2, THEN conjunct2]
  by blast

lemma header_at_match:
  "header_at full_text i \<longleftrightarrow>
     i < length full_text \<and> line_start True full_text i \<and>
     match_header (drop i full_text) \<noteq> None"
  by (simp add: header_at_iff match_header_None_iff line_start_def)

lemma list_all_upt: "list_all P [0 ..< n] \<longleftrightarrow> (\<forall>i < n. P i)"
  by (auto simp: list_all_iff)

lemma re_split_cases:
  "re_split s = [s] \<and> search_header True s = None \<or>
   (\<exists>before title rest. search_header True s = Some (before, title, rest) \<and>
      re_split s = before # title # re_split rest)"
  by (subst (1 2) re_split.simps) (auto split: option.splits)

lemma content_list_no_header:
  "search_header True s = None \<Longrightarrow> content_list s = [(''General'', s)]"
  by (simp add: content_list_def re_split.simps)

lemma content_list_header:
  assumes "search_header True s = Some (before, title, rest)"
  shows "content_list s =
     (''Introduction'', before) # (title, snd (hd (content_list rest))) # tl (content_list rest)"
proof -
  from assms have split: "re_split s = before # title # re_split rest"
    by (subst re_split.simps) simp
  from re_split_cases [of rest] show ?thesis
  proof (elim disjE conjE exE)
    assume "re_split rest = [rest]" "search_header True rest = None"
    then show ?thesis
      by (simp add: content_list_def split)
  next
    fix b t r
    assume "search_header True rest = Some (b, t, r)" "re_split rest = b # t # re_split r"
    then show ?thesis
      by (simp add: content_list_def split)
  qed
qed

text \<open>
  Claim C4, as the specification states it, fails: in the text below no line is an
  upper-case letter followed by six or more characters of the class, and still the text
  is not one section \<^verbatim>\<open>"General"\<close>: the line \<^verbatim>\<open>ABCDEF\<close> (a letter and five more
  characters) is a header.
\<close>

theorem content_list_six_counterexample:
  "\<not> list_ex claimed_header_line (split_lines ''ABCDEF\<newline>body\<newline>'') \<and>
   content_list ''ABCDEF\<newline>body\<newline>'' = [(''Introduction'', []), (''ABCDEF'', ''body\<newline>'')]"
  by code_simp

text \<open>
  Claim C4, amended. A header is a match of the pattern: at the start of a line, an
  upper-case letter followed by five or more characters that are upper-case letters,
  digits, whitespace (line breaks included, so that a header can run over several lines),
  hyphens or colons, and then a newline. When the text has no header position, the whole
  text is the one section \<^verbatim>\<open>"General"\<close>. Otherwise, with \<open>i\<close> the first header position,
  the text before \<open>i\<close> is the section \<^verbatim>\<open>"Introduction"\<close>, the next section is named by the
  longest title that stands at \<open>i\<close>, and its text and the sections after it are those of
  the text after that title's newline, split in the same way.
\<close>

theorem content_list_headers:
  "((\<forall>i < length full_text. \<not> header_at full_text i) \<longrightarrow>
      content_list full_text = [(''General'', full_text)]) \<and>
   (header_at full_text i \<and> (\<forall>j < i. \<not> header_at full_text j) \<longrightarrow>
      (\<exists>title rest.
         full_text = take i full_text @ title @ newline # rest \<and>
         header_title title \<and>
         (\<forall>t. header_prefix t (drop i full_text) \<longrightarrow> length t \<le> length title) \<and>
         content_list full_text =
           (''Introduction'', take i full_text) #
           (title, snd (hd (content_list rest))) # tl (content_list rest)))"
proof (intro conjI impI)
  assume no: "\<forall>i < length full_text. \<not> header_at full_text i"
  have "search_header True full_text = None"
  proof (cases "search_header True full_text")
    case None
    then show ?thesis .
  next
    case (Some m)
    obtain before title rest where "m = (before, title, rest)"
      by (cases m)
    with Some have found: "search_header True full_text = Some (before, title, rest)"
      by simp
    have "length before < length full_text"
      using arg_cong [OF search_header_text [OF found], of length] by simp
    with search_header_line_start [OF found] search_header_match [OF found]
    have "header_at full_text (length before)"
      by (simp add: header_at_match)
    with no \<open>length before < length full_text\<close> show ?thesis by blast
  qed
  then show "content_list full_text = [(''General'', full_text)]"
    by (rule content_list_no_header)
next
  assume "header_at full_text i \<and> (\<forall>j < i. \<not> header_at full_text j)"
  then have at: "header_at full_text i" and first: "\<forall>j < i. \<not> header_at full_text j"
    by simp_all
  from at have i: "i < length full_text" and start: "line_start True full_text i"
    and some: "match_header (drop i full_text) \<noteq> None"
    by (simp_all add: header_at_match)
  have "search_header True full_text \<noteq> None"
  proof
    assume "search_header True full_text = None"
    from search_header_None [OF this i start] some show False by simp
  qed
  then obtain before title rest where
    found: "search_header True full_text = Some (before, title, rest)"
    by (cases "search_header True full_text") auto
  note s = search_header_text [OF found]
  note m = search_header_match [OF found]
  have lt: "length before < length full_text"
    using arg_cong [OF s, of length] by simp
  have "\<not> i < length before"
  proof
    assume "i < length before"
    from search_header_first [OF found this start] some show False by simp
  qed
  moreover have "\<not> length before < i"
  proof
    assume "length before < i"
    moreover have "header_at full_text (length before)"
      using lt search_header_line_start [OF found] m by (simp add: header_at_match)
    ultimately show False
      using first by blast
  qed
  ultimately have eq: "length before = i" by simp
  have "take (length before) full_text = before"
    using arg_cong [OF s, of "take (length before)"] by simp
  with eq have before: "before = take i full_text" by simp
  have title: "header_title title"
    using match_header_sound [OF m] by simp
  have longest: "\<forall>t. header_prefix t (drop i full_text) \<longrightarrow> length t \<le> length title"
  proof (intro allI impI)
    fix t
    assume "header_prefix t (drop i full_text)"
    from match_header_complete [OF this] m eq show "length t \<le> length title" by simp
  qed
  have text_eq: "full_text = take i full_text @ title @ newline # rest"
    using s before by simp
  have "content_list full_text =
      (''Introduction'', take i full_text) #
      (title, snd (hd (content_list rest))) # tl (content_list rest)"
    using content_list_header [OF found] before by simp
  with text_eq title longest
  show "\<exists>title rest.
         full_text = take i full_text @ title @ newline # rest \<and>
         header_title title \<and>
         (\<forall>t. header_prefix t (drop i full_text) \<longrightarrow> length t \<le> length title) \<and>
         content_list full_text =
           (''Introduction'', take i full_text) #
           (title, snd (hd (content_list rest))) # tl (content_list rest)"
    by blast
qed

theorem content_list_headers_witness:
  "list_all (\<lambda>i. \<not> header_at ''Scope\<newline>a b'' i) [0 ..< length ''Scope\<newline>a b''] \<and>
   content_list ''Scope\<newline>a b'' = [(''General'', ''Scope\<newline>a b'')] \<and>
   header_at ''ab\<newline>ABCDEF\<newline>body\<newline>'' 3 \<and>
   list_all (\<lambda>j. \<not> header_at ''ab\<newline>ABCDEF\<newline>body\<newline>'' j) [0 ..< 3] \<and>
   (\<exists>title rest.
      ''ab\<newline>ABCDEF\<newline>body\<newline>'' = take 3 ''ab\<newline>ABCDEF\<newline>body\<newline>'' @ title @ newline # rest \<and>
      header_title title \<and>
      content_list ''ab\<newline>ABCDEF\<newline>body\<newline>'' =
        (''Introduction'', take 3 ''ab\<newline>ABCDEF\<newline>body\<newline>'') #
        (title, snd (hd (content_list rest))) # tl (content_list rest)) \<and>
   content_list ''ab\<newline>ABCDEF\<newline>body\<newline>'' =
     [(''Introduction'', ''ab\<newline>''), (''ABCDEF'', ''body\<newline>'')]"
proof -
  have none: "list_all (\<lambda>i. \<not> header_at ''Scope\<newline>a b'' i) [0 ..< length ''Scope\<newline>a b'']"
    by code_simp
  then have none': "\<forall>i < length ''Scope\<newline>a b''. \<not> header_at ''Scope\<newline>a b'' i"
    by (simp only: list_all_upt)
  have at: "header_at ''ab\<newline>ABCDEF\<newline>body\<newline>'' 3"
    by code_simp
  have before: "list_all (\<lambda>j. \<not> header_at ''ab\<newline>ABCDEF\<newline>body\<newline>'' j) [0 ..< 3]"
    by code_simp
  then have before': "\<forall>j < 3. \<not> header_at ''ab\<newline>ABCDEF\<newline>body\<newline>'' j"
    by (simp only: list_all_upt)
  have run: "content_list ''ab\<newline>ABCDEF\<newline>body\<newline>'' =
     [(''Introduction'', ''ab\<newline>''), (''ABCDEF'', ''body\<newline>'')]"
    by code_simp
  have general: "content_list ''Scope\<newline>a b'' = [(''General'', ''Scope\<newline>a b'')]"
    using content_list_headers [of "''Scope\<newline>a b''"] none' by blast
  have first: "\<exists>title rest.
      ''ab\<newline>ABCDEF\<newline>body\<newline>'' = take 3 ''ab\<newline>ABCDEF\<newline>body\<newline>'' @ title @ newline # rest \<and>
      header_title title \<and>
      content_list ''ab\<newline>ABCDEF\<newline>body\<newline>'' =
        (''Introduction'', take 3 ''ab\<newline>ABCDEF\<newline>body\<newline>'') #
        (title, snd (hd (content_list rest))) # tl (content_list rest)"
    using content_list_headers [of "''ab\<newline>ABCDEF\<newline>body\<newline>''" 3] at before' by blast
  from none general at before first run show ?thesis
    by blast
qed

section \<open>Properties of the retriever construction\<close>

text \<open>
  Claim C5, as the specification states it, fails: on an empty index the code does not
  retrieve an empty sequence of passages, it builds no retriever at all. The result of
  \<open>get_advanced_retriever\<close> is \<^verbatim>\<open>None\<close>, not a retriever.
\<close>

theorem empty_index_no_retriever_counterexample:
  "get_advanced_retriever (\<lambda>name. Inr demo_model) \<lparr>collection = []\<rparr> ''Mistral'' = Inr None \<and>
   \<not> (\<exists>r. get_advanced_retriever (\<lambda>name. Inr demo_model) \<lparr>collection = []\<rparr> ''Mistral'' =
          Inr (Some r))"
  by (simp add: get_advanced_retriever_def get_all_documents_def)

text \<open>
  Claim C5, amended. When the index contains no chunks, \<open>get_advanced_retriever\<close> returns
  \<^verbatim>\<open>None\<close> and so does \<open>get_rag_chain\<close>: no retriever and no chain are built, no retrieval
  takes place, and no exception is raised, whatever the model key and whether or not the
  cross-encoder can be loaded.
\<close>

theorem empty_index_returns_none:
  "get_all_documents vsm = [] \<Longrightarrow>
   get_advanced_retriever load vsm model_key = Inr None \<and>
   get_rag_chain load model_key vsm = Inr None"
  by (simp add: get_advanced_retriever_def get_rag_chain_def)

theorem empty_index_returns_none_witness:
  "get_all_documents \<lparr>collection = []\<rparr> = [] \<and>
   get_advanced_retriever (\<lambda>name. Inl OtherException :: error + int cross_encoder)
     \<lparr>collection = []\<rparr> ''NoSuchModel'' = Inr None \<and>
   get_rag_chain (\<lambda>name. Inl OtherException :: error + int cross_encoder)
     ''NoSuchModel'' \<lparr>collection = []\<rparr> = Inr None"
proof -
  have h: "get_all_documents \<lparr>collection = []\<rparr> = []"
    by (simp add: get_all_documents_def)
  from empty_index_returns_none [OF h] h show ?thesis
    by simp
qed

end
